theory Spec2Isabelle
  imports Complex_Main "HOL-Library.Sublist"
begin

section \<open>Detection post-processing of MosquePrayerDisplay.js\<close>

text \<open>
  The component \<open>MosquePrayerDisplay\<close> asks a pretrained model for the objects of a video
  frame and reduces them to the list \<open>jamaah\<close> it draws and counts. This theory embeds that
  reduction: the filter callback, the two sorts, \<open>applyNMS\<close> and \<open>calculateIoU\<close>.

  Numbers. A JavaScript number is an IEEE 754 double, and the code is embedded twice.
  In the first embedding the fields of a prediction (score and the four box coordinates)
  and the frame dimensions are exact rationals: rounding, overflow and the sign of zero
  are left out, and the only operation that leaves the finite numbers is the quotient
  \<open>width / height\<close> with \<open>height = 0\<close>, whose result has the type \<open>number\<close>, with the
  comparison rules of JavaScript (every comparison with NaN is false). This embedding
  carries the properties of the structure of the pipeline: what the filter lets through,
  the order of the output, the arrays, the fixpoint.
  The second embedding has the arithmetic of the code: every operation is rounded to
  the nearest double, ties to even, with the infinities, NaN and the two zeros. It carries
  the properties that hold or fail by rounding: the thresholds of \<open>applyNMS\<close> and the
  value of \<open>calculateIoU\<close>.
\<close>

subsection \<open>Data\<close>

text \<open>
  One element of the array returned by \<open>model.detect\<close>: \<open>{bbox, class, score}\<close>, with
  \<open>bbox = [x, y, width, height]\<close>. The type \<open>'n\<close> is the type of its numbers.
\<close>

record 'n prediction_of =
  bbox :: "'n \<times> 'n \<times> 'n \<times> 'n"
  class' :: string
  score :: 'n

type_synonym bbox = "rat \<times> rat \<times> rat \<times> rat"

type_synonym prediction = "rat prediction_of"

datatype number = Finite rat | PosInfinity | NegInfinity | NaN

text \<open>\<open>a / b\<close> on finite operands: division by zero yields an infinity or NaN, no error.\<close>

definition js_div :: "rat \<Rightarrow> rat \<Rightarrow> number" where
  "js_div a b =
     (if b = 0 then (if 0 < a then PosInfinity else if a < 0 then NegInfinity else NaN)
      else Finite (a / b))"

text \<open>\<open>n < c\<close> and \<open>n > c\<close> for a finite constant \<open>c\<close>.\<close>

fun js_lt :: "number \<Rightarrow> rat \<Rightarrow> bool" where
  "js_lt (Finite a) c = (a < c)"
| "js_lt PosInfinity c = False"
| "js_lt NegInfinity c = True"
| "js_lt NaN c = False"

fun js_gt :: "number \<Rightarrow> rat \<Rightarrow> bool" where
  "js_gt (Finite a) c = (c < a)"
| "js_gt PosInfinity c = True"
| "js_gt NegInfinity c = False"
| "js_gt NaN c = False"

subsection \<open>calculateIoU (lines 351-371)\<close>

fun calculateIoU :: "bbox \<Rightarrow> bbox \<Rightarrow> rat" where
  "calculateIoU (x1A, y1A, wA, hA) (x1B, y1B, wB, hB) =
     (let x2A = x1A + wA;
          y2A = y1A + hA;
          x2B = x1B + wB;
          y2B = y1B + hB;
          xA = max x1A x1B;
          yA = max y1A y1B;
          xB = min x2A x2B;
          yB = min y2A y2B;
          interArea = max 0 (xB - xA) * max 0 (yB - yA);
          boxAArea = wA * hA;
          boxBArea = wB * hB;
          unionArea = boxAArea + boxBArea - interArea
      in if 0 < unionArea then interArea / unionArea else 0)"

text \<open>
  The intersection over union as the specification words it: the intersection rectangle
  from the max of the left edges, the max of the top edges, the min of the right edges and
  the min of the bottom edges; its area zero if the resulting width or height is negative;
  union area = areaA + areaB - intersection; IoU = intersection / union, and 0 when the
  union is 0.
\<close>

fun iou_spec :: "bbox \<Rightarrow> bbox \<Rightarrow> rat" where
  "iou_spec (xa, ya, wa, ha) (xb, yb, wb, hb) =
     (let left = max xa xb;
          top = max ya yb;
          right = min (xa + wa) (xb + wb);
          bottom = min (ya + ha) (yb + hb);
          iw = right - left;
          ih = bottom - top;
          inter = (if iw < 0 \<or> ih < 0 then 0 else iw * ih);
          union = wa * ha + wb * hb - inter
      in if union = 0 then 0 else inter / union)"

subsection \<open>applyNMS (lines 318-348)\<close>

text \<open>
  The for loop of lines 339-344, \<open>for (let i = sorted.length - 1; i >= 0; i--)\<close>. The first
  argument is \<open>i + 1\<close>, so the loop starts at the length of the array and stops at 0. The array \<open>sorted\<close>
  of the source is the variable \<open>sorted'\<close> here.
  \<open>sorted.splice(i, 1)\<close> removes the element at index \<open>i\<close>. Reading \<open>sorted[i].bbox\<close> with
  \<open>i\<close> out of range is a TypeError in JavaScript: the value \<open>None\<close>.
\<close>

fun remove_overlapping :: "nat \<Rightarrow> bbox \<Rightarrow> rat \<Rightarrow> prediction list \<Rightarrow> prediction list option" where
  "remove_overlapping 0 current_bbox iouThreshold sorted' = Some sorted'"
| "remove_overlapping (Suc i) current_bbox iouThreshold sorted' =
     (if i < length sorted' then
        (let iou = calculateIoU current_bbox (bbox (sorted' ! i)) in
         if iouThreshold < iou
         then remove_overlapping i current_bbox iouThreshold (take i sorted' @ drop (Suc i) sorted')
         else remove_overlapping i current_bbox iouThreshold sorted')
      else None)"

text \<open>The test of line 332 on \<open>current\<close>: \<open>width > 200 && aspectRatio > 1.8\<close>.\<close>

definition too_large :: "prediction \<Rightarrow> bool" where
  "too_large current =
     (case bbox current of (x, y, width, height) \<Rightarrow>
        let aspectRatio = js_div width height
        in 200 < width \<and> js_gt aspectRatio (18 / 10))"

text \<open>
  The while loop of lines 324-345 on its two local arrays: \<open>sorted.shift()\<close> takes the
  head, \<open>continue\<close> drops it, \<open>result.push(current)\<close> appends it.
\<close>

function nms_loop :: "rat \<Rightarrow> prediction list \<Rightarrow> prediction list \<Rightarrow> prediction list option" where
  "nms_loop iouThreshold [] result = Some result"
| "nms_loop iouThreshold (current # sorted') result =
     (if too_large current then nms_loop iouThreshold sorted' result
      else (case remove_overlapping (length sorted') (bbox current) iouThreshold sorted' of
              None \<Rightarrow> None
            | Some rest \<Rightarrow> nms_loop iouThreshold rest (result @ [current])))"
  by pat_completeness auto

termination
proof -
  have shorter: "length ys \<le> length xs"
    if "remove_overlapping i b t xs = Some ys" for i b t xs ys
    using that
    by (induction i b t xs arbitrary: ys rule: remove_overlapping.induct)
       (auto simp: Let_def split: if_splits, fastforce+)
  show ?thesis
    by (relation "measure (\<lambda>(t, xs, result). length xs)") (auto dest: shorter)
qed

text \<open>
  \<open>Array.prototype.sort\<close> with a comparator \<open>cmp\<close>: the sort is stable (ECMAScript 2019),
  so that for a consistent comparator the result is the one of insertion sort, where an
  element goes in front of the first element it does not have to follow.
\<close>

fun insert_sorted :: "('a \<Rightarrow> 'a \<Rightarrow> rat) \<Rightarrow> 'a \<Rightarrow> 'a list \<Rightarrow> 'a list" where
  "insert_sorted cmp a [] = [a]"
| "insert_sorted cmp a (b # bs) =
     (if cmp a b \<le> 0 then a # b # bs else b # insert_sorted cmp a bs)"

definition array_sort :: "('a \<Rightarrow> 'a \<Rightarrow> rat) \<Rightarrow> 'a list \<Rightarrow> 'a list" where
  "array_sort cmp xs = foldr (insert_sorted cmp) xs []"

text \<open>The comparator of lines 225 and 322: \<open>(a, b) => b.score - a.score\<close>.\<close>

definition by_score :: "prediction \<Rightarrow> prediction \<Rightarrow> rat" where
  "by_score a b = score b - score a"

definition applyNMS :: "prediction list \<Rightarrow> rat \<Rightarrow> prediction list option" where
  "applyNMS detections iouThreshold =
     (if length detections = 0 then Some []
      else nms_loop iouThreshold (array_sort by_score detections) [])"

subsection \<open>The list jamaah of detectObjects (lines 205-228)\<close>

text \<open>The callback of \<open>predictions.filter\<close>, lines 205-222.\<close>

definition is_jamaah :: "rat \<Rightarrow> rat \<Rightarrow> prediction \<Rightarrow> bool" where
  "is_jamaah videoWidth videoHeight pred =
     (if class' pred \<noteq> ''person'' \<or> score pred < 65 / 100 then False
      else (case bbox pred of (x, y, width, height) \<Rightarrow>
        let aspectRatio = js_div width height;
            area = width * height
        in width < videoWidth * (4 / 10) \<and>
           height < videoHeight * (8 / 10) \<and>
           30 < width \<and>
           50 < height \<and>
           js_lt aspectRatio (25 / 10) \<and>
           js_gt aspectRatio (3 / 10) \<and>
           area < videoWidth * videoHeight * (15 / 100)))"

text \<open>
  The value of \<open>jamaah\<close> after line 228, from \<open>predictions\<close> and the dimensions of the
  video: filter, sort, \<open>applyNMS(jamaah, 0.3)\<close>.
\<close>

definition detectObjects :: "rat \<Rightarrow> rat \<Rightarrow> prediction list \<Rightarrow> prediction list option" where
  "detectObjects videoWidth videoHeight predictions =
     (let jamaah = filter (is_jamaah videoWidth videoHeight) predictions;
          jamaah = array_sort by_score jamaah
      in applyNMS jamaah (3 / 10))"

subsection \<open>The same code with the identity of its arrays\<close>

text \<open>
  A store holds the arrays allocated so far; a reference is an index into it, valid when
  below the length of the store. The elements of the arrays are the prediction objects,
  which this code only reads.
  \<open>predictions.filter\<close>, \<open>[]\<close> and \<open>[...detections]\<close> allocate a new array;
  \<open>sort\<close>, \<open>shift\<close>, \<open>push\<close> and \<open>splice\<close> change the array they are called on.
\<close>

type_synonym ref = nat

type_synonym store = "prediction list list"

definition new_array :: "store \<Rightarrow> prediction list \<Rightarrow> store \<times> ref" where
  "new_array h xs = (h @ [xs], length h)"

text \<open>
  \<open>applyNMS\<close>: \<open>result\<close> and \<open>sorted\<close> are new arrays; the while loop runs on these two
  and leaves \<open>sorted\<close> empty; the reference \<open>result\<close> is returned.
\<close>

definition applyNMS_store :: "store \<Rightarrow> ref \<Rightarrow> rat \<Rightarrow> (store \<times> ref) option" where
  "applyNMS_store h detections iouThreshold =
     (if length (h ! detections) = 0 then Some (new_array h [])
      else
        (let (h1, result) = new_array h [];
             (h2, sorted') = new_array h1 (h1 ! detections);
             h3 = h2[sorted' := array_sort by_score (h2 ! sorted')]
         in (case nms_loop iouThreshold (h3 ! sorted') (h3 ! result) of
               None \<Rightarrow> None
             | Some final \<Rightarrow> Some (h3[sorted' := [], result := final], result))))"

text \<open>
  Lines 205-228: \<open>jamaah\<close> is the new array of \<open>filter\<close>, sorted in place, and then the
  array returned by \<open>applyNMS\<close>.
\<close>

definition detectObjects_store :: "rat \<Rightarrow> rat \<Rightarrow> store \<Rightarrow> ref \<Rightarrow> (store \<times> ref) option" where
  "detectObjects_store videoWidth videoHeight h predictions =
     (let (h1, jamaah) = new_array h (filter (is_jamaah videoWidth videoHeight) (h ! predictions));
          h2 = h1[jamaah := array_sort by_score (h1 ! jamaah)]
      in applyNMS_store h2 jamaah (3 / 10))"

subsection \<open>The conditions of the specification\<close>

text \<open>
  Stage 1 as the specification lists it: label "person", score at least 0.65, width below
  0.40 of the frame width, height below 0.80 of the frame height, width above 30, height
  above 50, aspect ratio width/height strictly between 0.3 and 2.5, and area below 0.15 of
  the frame area.
\<close>

definition stage1_conditions :: "rat \<Rightarrow> rat \<Rightarrow> prediction \<Rightarrow> bool" where
  "stage1_conditions frameWidth frameHeight d =
     (case bbox d of (x, y, width, height) \<Rightarrow>
        class' d = ''person'' \<and>
        65 / 100 \<le> score d \<and>
        width < 40 / 100 * frameWidth \<and>
        height < 80 / 100 * frameHeight \<and>
        30 < width \<and>
        50 < height \<and>
        3 / 10 < width / height \<and> width / height < 25 / 10 \<and>
        width * height < 15 / 100 * frameWidth * frameHeight)"

text \<open>Malformed geometry: a box of zero or negative width or height.\<close>

definition malformed :: "prediction \<Rightarrow> bool" where
  "malformed d = (case bbox d of (x, y, width, height) \<Rightarrow> width \<le> 0 \<or> height \<le> 0)"

subsection \<open>Sample predictions\<close>

definition person_a :: prediction where
  "person_a = \<lparr>bbox = (10, 10, 50, 100), class' = ''person'', score = 9 / 10\<rparr>"

definition car_a :: prediction where
  "car_a = \<lparr>bbox = (200, 100, 60, 90), class' = ''car'', score = 95 / 100\<rparr>"

definition person_faint :: prediction where
  "person_faint = \<lparr>bbox = (300, 100, 60, 120), class' = ''person'', score = 1 / 2\<rparr>"

definition person_flat :: prediction where
  "person_flat = \<lparr>bbox = (400, 200, 60, 0), class' = ''person'', score = 8 / 10\<rparr>"

definition person_b :: prediction where
  "person_b = \<lparr>bbox = (100, 100, 100, 200), class' = ''person'', score = 9 / 10\<rparr>"

definition person_b_shifted :: prediction where
  "person_b_shifted = \<lparr>bbox = (110, 100, 100, 200), class' = ''person'', score = 85 / 100\<rparr>"

definition person_c :: prediction where
  "person_c = \<lparr>bbox = (500, 100, 100, 200), class' = ''person'', score = 7 / 10\<rparr>"

definition person_d :: prediction where
  "person_d = \<lparr>bbox = (800, 100, 100, 200), class' = ''person'', score = 7 / 10\<rparr>"

definition person_wide :: prediction where
  "person_wide = \<lparr>bbox = (0, 0, 250, 125), class' = ''person'', score = 9 / 10\<rparr>"

definition person_inner :: prediction where
  "person_inner = \<lparr>bbox = (0, 0, 125, 125), class' = ''person'', score = 8 / 10\<rparr>"

definition person_negative :: prediction where
  "person_negative = \<lparr>bbox = (700, 300, - 60, 120), class' = ''person'', score = 8 / 10\<rparr>"

definition person_b_wider :: prediction where
  "person_b_wider = \<lparr>bbox = (100, 100, 200, 200), class' = ''person'', score = 8 / 10\<rparr>"

lemmas samples = person_a_def car_a_def person_faint_def person_flat_def person_b_def
  person_b_shifted_def person_c_def person_d_def person_wide_def person_inner_def person_negative_def
  person_b_wider_def

lemmas unfold_code = detectObjects_def is_jamaah_def js_div_def applyNMS_def array_sort_def
  too_large_def by_score_def

subsection \<open>The loops as functions\<close>

text \<open>
  \<open>keeps t b p\<close>: the for loop leaves \<open>p\<close> in the array, \<open>iou > iouThreshold\<close> being
  false. \<open>nms t xs\<close>: what the while loop appends to \<open>result\<close> from the array \<open>xs\<close>.
  Both are shown below to be what the loops compute.
\<close>

definition keeps :: "rat \<Rightarrow> bbox \<Rightarrow> prediction \<Rightarrow> bool" where
  "keeps t b p = (\<not> t < calculateIoU b (bbox p))"

fun nms :: "rat \<Rightarrow> prediction list \<Rightarrow> prediction list" where
  "nms t [] = []"
| "nms t (c # xs) =
     (if too_large c then nms t xs
      else c # nms t (filter (keeps t (bbox c)) xs))"

section \<open>The same code in IEEE 754 double precision\<close>

text \<open>
  The functions of this section are the functions above, line by line, with every
  number a double, every literal the double nearest to it, and every operation,
  comparison, \<open>Math.max\<close> and \<open>Math.min\<close> the one of JavaScript. The fields of a prediction
  and the frame dimensions may be any double.
\<close>

subsection \<open>Doubles\<close>

text \<open>
  A JavaScript number: a finite binary64 value, given by the rational it denotes (\<open>Num 0\<close>
  is +0), the negative zero, the two infinities, or NaN.
\<close>

datatype double = Num rat | MinusZero | Infinity | MinusInfinity | NotANumber

text \<open>The number of binary digits of a natural number.\<close>

fun bit_length :: "nat \<Rightarrow> nat" where
  "bit_length n = (if n = 0 then 0 else Suc (bit_length (n div 2)))"

declare bit_length.simps [simp del]

definition pow2 :: "int \<Rightarrow> rat" where
  "pow2 e = (if 0 \<le> e then 2 ^ nat e else 1 / 2 ^ nat (- e))"

text \<open>For \<open>a > 0\<close>, the exponent \<open>e\<close> with \<open>2^e \<le> a < 2^(e+1)\<close>.\<close>

definition ilog2 :: "rat \<Rightarrow> int" where
  "ilog2 a =
     (if 1 \<le> a then int (bit_length (nat \<lfloor>a\<rfloor>)) - 1
      else - int (bit_length (nat (\<lceil>1 / a\<rceil> - 1))))"

text \<open>The nearest integer, a tie going to the even one.\<close>

definition round_even :: "rat \<Rightarrow> int" where
  "round_even a =
     (let n = \<lfloor>a\<rfloor>; r = a - of_int n
      in if r < 1 / 2 then n
         else if 1 / 2 < r then n + 1
         else if even n then n else n + 1)"

text \<open>
  The nearest multiple of the unit in the last place of \<open>a > 0\<close>: 53 significant bits,
  and the fixed unit \<open>2^-1074\<close> below the normal range.
\<close>

definition nearest :: "rat \<Rightarrow> rat" where
  "nearest a =
     (let q = pow2 (max (ilog2 a - 52) (- 1074))
      in of_int (round_even (a / q)) * q)"

text \<open>
  Rounding of an exact result to a double (round to nearest, ties to even): a nonzero
  result that rounds to zero keeps its sign, a result that rounds to \<open>2^1024\<close> or more
  overflows to an infinity. It is also the value of a decimal literal.
\<close>

definition fl :: "rat \<Rightarrow> double" where
  "fl x =
     (if x = 0 then Num 0
      else
        (let m = nearest \<bar>x\<bar>
         in if m = 0 then (if x < 0 then MinusZero else Num 0)
            else if 1024 \<le> ilog2 m then (if x < 0 then MinusInfinity else Infinity)
            else Num (if x < 0 then - m else m)))"

definition is_zero :: "double \<Rightarrow> bool" where
  "is_zero a = (a = Num 0 \<or> a = MinusZero)"

definition is_inf :: "double \<Rightarrow> bool" where
  "is_inf a = (a = Infinity \<or> a = MinusInfinity)"

text \<open>The sign bit, and the value of a finite double.\<close>

fun negative :: "double \<Rightarrow> bool" where
  "negative (Num a) = (a < 0)"
| "negative MinusZero = True"
| "negative MinusInfinity = True"
| "negative Infinity = False"
| "negative NotANumber = False"

fun val :: "double \<Rightarrow> rat" where
  "val (Num a) = a"
| "val MinusZero = 0"
| "val Infinity = 0"
| "val MinusInfinity = 0"
| "val NotANumber = 0"

text \<open>
  \<open>a + b\<close>. Adding a zero returns the other operand (and \<open>-0 + -0 = -0\<close>); an exact sum
  of zero is +0.
\<close>

fun d_add :: "double \<Rightarrow> double \<Rightarrow> double" where
  "d_add NotANumber b = NotANumber"
| "d_add a NotANumber = NotANumber"
| "d_add Infinity MinusInfinity = NotANumber"
| "d_add MinusInfinity Infinity = NotANumber"
| "d_add Infinity b = Infinity"
| "d_add a Infinity = Infinity"
| "d_add MinusInfinity b = MinusInfinity"
| "d_add a MinusInfinity = MinusInfinity"
| "d_add MinusZero b = b"
| "d_add a MinusZero = a"
| "d_add (Num a) (Num b) = (if a = 0 then Num b else if b = 0 then Num a else fl (a + b))"

fun d_neg :: "double \<Rightarrow> double" where
  "d_neg (Num a) = (if a = 0 then MinusZero else Num (- a))"
| "d_neg MinusZero = Num 0"
| "d_neg Infinity = MinusInfinity"
| "d_neg MinusInfinity = Infinity"
| "d_neg NotANumber = NotANumber"

text \<open>\<open>a - b\<close> is \<open>a + (-b)\<close>.\<close>

definition d_sub :: "double \<Rightarrow> double \<Rightarrow> double" where
  "d_sub a b = d_add a (d_neg b)"

text \<open>\<open>a * b\<close>: the sign of the result is the exclusive or of the signs.\<close>

definition d_mul :: "double \<Rightarrow> double \<Rightarrow> double" where
  "d_mul a b =
     (if a = NotANumber \<or> b = NotANumber then NotANumber
      else if (is_inf a \<and> is_zero b) \<or> (is_zero a \<and> is_inf b) then NotANumber
      else if is_inf a \<or> is_inf b
        then (if negative a = negative b then Infinity else MinusInfinity)
      else if is_zero a \<or> is_zero b
        then (if negative a = negative b then Num 0 else MinusZero)
      else fl (val a * val b))"

text \<open>\<open>a / b\<close>: division by zero yields an infinity or NaN, no error.\<close>

definition d_div :: "double \<Rightarrow> double \<Rightarrow> double" where
  "d_div a b =
     (if a = NotANumber \<or> b = NotANumber then NotANumber
      else if (is_inf a \<and> is_inf b) \<or> (is_zero a \<and> is_zero b) then NotANumber
      else if is_inf a \<or> is_zero b
        then (if negative a = negative b then Infinity else MinusInfinity)
      else if is_zero a \<or> is_inf b
        then (if negative a = negative b then Num 0 else MinusZero)
      else fl (val a / val b))"

text \<open>\<open>a < b\<close> and \<open>a > b\<close>: false when an operand is NaN; the two zeros are equal.\<close>

fun d_lt :: "double \<Rightarrow> double \<Rightarrow> bool" where
  "d_lt NotANumber b = False"
| "d_lt a NotANumber = False"
| "d_lt a MinusInfinity = False"
| "d_lt MinusInfinity b = True"
| "d_lt Infinity b = False"
| "d_lt a Infinity = True"
| "d_lt a b = (val a < val b)"

definition d_gt :: "double \<Rightarrow> double \<Rightarrow> bool" where
  "d_gt a b = d_lt b a"

text \<open>\<open>Math.max(a, b)\<close> and \<open>Math.min(a, b)\<close>: NaN when an operand is NaN; +0 is above -0.\<close>

definition d_max :: "double \<Rightarrow> double \<Rightarrow> double" where
  "d_max a b =
     (if a = NotANumber \<or> b = NotANumber then NotANumber
      else if d_lt a b then b
      else if d_lt b a then a
      else if a = MinusZero then b else a)"

definition d_min :: "double \<Rightarrow> double \<Rightarrow> double" where
  "d_min a b =
     (if a = NotANumber \<or> b = NotANumber then NotANumber
      else if d_lt a b then a
      else if d_lt b a then b
      else if a = MinusZero then a else b)"

subsection \<open>calculateIoU, applyNMS and the list jamaah in doubles\<close>

fun calculateIoU_double ::
  "double \<times> double \<times> double \<times> double \<Rightarrow> double \<times> double \<times> double \<times> double \<Rightarrow> double" where
  "calculateIoU_double (x1A, y1A, wA, hA) (x1B, y1B, wB, hB) =
     (let x2A = d_add x1A wA;
          y2A = d_add y1A hA;
          x2B = d_add x1B wB;
          y2B = d_add y1B hB;
          xA = d_max x1A x1B;
          yA = d_max y1A y1B;
          xB = d_min x2A x2B;
          yB = d_min y2A y2B;
          interArea = d_mul (d_max (Num 0) (d_sub xB xA)) (d_max (Num 0) (d_sub yB yA));
          boxAArea = d_mul wA hA;
          boxBArea = d_mul wB hB;
          unionArea = d_sub (d_add boxAArea boxBArea) interArea
      in if d_gt unionArea (Num 0) then d_div interArea unionArea else Num 0)"

fun remove_overlapping_double ::
  "nat \<Rightarrow> double \<times> double \<times> double \<times> double \<Rightarrow> double \<Rightarrow>
   double prediction_of list \<Rightarrow> double prediction_of list option" where
  "remove_overlapping_double 0 current_bbox iouThreshold sorted' = Some sorted'"
| "remove_overlapping_double (Suc i) current_bbox iouThreshold sorted' =
     (if i < length sorted' then
        (let iou = calculateIoU_double current_bbox (bbox (sorted' ! i)) in
         if d_gt iou iouThreshold
         then remove_overlapping_double i current_bbox iouThreshold
                (take i sorted' @ drop (Suc i) sorted')
         else remove_overlapping_double i current_bbox iouThreshold sorted')
      else None)"

definition too_large_double :: "double prediction_of \<Rightarrow> bool" where
  "too_large_double current =
     (case bbox current of (x, y, width, height) \<Rightarrow>
        let aspectRatio = d_div width height
        in d_gt width (Num 200) \<and> d_gt aspectRatio (fl (18 / 10)))"

function nms_loop_double ::
  "double \<Rightarrow> double prediction_of list \<Rightarrow> double prediction_of list \<Rightarrow>
   double prediction_of list option" where
  "nms_loop_double iouThreshold [] result = Some result"
| "nms_loop_double iouThreshold (current # sorted') result =
     (if too_large_double current then nms_loop_double iouThreshold sorted' result
      else (case remove_overlapping_double (length sorted') (bbox current) iouThreshold sorted' of
              None \<Rightarrow> None
            | Some rest \<Rightarrow> nms_loop_double iouThreshold rest (result @ [current])))"
  by pat_completeness auto
termination
proof -
  have shorter: "length ys \<le> length xs"
    if "remove_overlapping_double i b t xs = Some ys" for i b t xs ys
    using that
    by (induction i b t xs arbitrary: ys rule: remove_overlapping_double.induct)
       (auto simp: Let_def split: if_splits, fastforce+)
  show ?thesis
    by (relation "measure (\<lambda>(t, xs, result). length xs)") (auto dest: shorter)
qed

text \<open>
  The stable sort with a comparator that returns a double: \<open>a\<close> goes behind \<open>b\<close> when
  \<open>cmp a b > 0\<close>, and a NaN counts as +0, as the sort of ECMAScript reads it. With a NaN
  score the comparator is not consistent and an engine may leave the array in another
  order; the properties of the while loop below are stated for every array.
\<close>

fun insert_sorted_double :: "('a \<Rightarrow> 'a \<Rightarrow> double) \<Rightarrow> 'a \<Rightarrow> 'a list \<Rightarrow> 'a list" where
  "insert_sorted_double cmp a [] = [a]"
| "insert_sorted_double cmp a (b # bs) =
     (if d_gt (cmp a b) (Num 0) then b # insert_sorted_double cmp a bs else a # b # bs)"

definition array_sort_double :: "('a \<Rightarrow> 'a \<Rightarrow> double) \<Rightarrow> 'a list \<Rightarrow> 'a list" where
  "array_sort_double cmp xs = foldr (insert_sorted_double cmp) xs []"

definition by_score_double :: "double prediction_of \<Rightarrow> double prediction_of \<Rightarrow> double" where
  "by_score_double a b = d_sub (score b) (score a)"

definition applyNMS_double ::
  "double prediction_of list \<Rightarrow> double \<Rightarrow> double prediction_of list option" where
  "applyNMS_double detections iouThreshold =
     (if length detections = 0 then Some []
      else nms_loop_double iouThreshold (array_sort_double by_score_double detections) [])"

definition is_jamaah_double :: "double \<Rightarrow> double \<Rightarrow> double prediction_of \<Rightarrow> bool" where
  "is_jamaah_double videoWidth videoHeight pred =
     (if class' pred \<noteq> ''person'' \<or> d_lt (score pred) (fl (65 / 100)) then False
      else (case bbox pred of (x, y, width, height) \<Rightarrow>
        let aspectRatio = d_div width height;
            area = d_mul width height
        in d_lt width (d_mul videoWidth (fl (4 / 10))) \<and>
           d_lt height (d_mul videoHeight (fl (8 / 10))) \<and>
           d_gt width (Num 30) \<and>
           d_gt height (Num 50) \<and>
           d_lt aspectRatio (fl (25 / 10)) \<and>
           d_gt aspectRatio (fl (3 / 10)) \<and>
           d_lt area (d_mul (d_mul videoWidth videoHeight) (fl (15 / 100)))))"

definition detectObjects_double ::
  "double \<Rightarrow> double \<Rightarrow> double prediction_of list \<Rightarrow> double prediction_of list option" where
  "detectObjects_double videoWidth videoHeight predictions =
     (let jamaah = filter (is_jamaah_double videoWidth videoHeight) predictions;
          jamaah = array_sort_double by_score_double jamaah
      in applyNMS_double jamaah (fl (3 / 10)))"

text \<open>\<open>a <= b\<close>, and \<open>a === b\<close> on numbers: NaN equals nothing, the two zeros are equal.\<close>

definition d_le :: "double \<Rightarrow> double \<Rightarrow> bool" where
  "d_le a b = (a \<noteq> NotANumber \<and> b \<noteq> NotANumber \<and> \<not> d_lt b a)"

definition same :: "double \<Rightarrow> double \<Rightarrow> bool" where
  "same a b = (a = b \<or> (is_zero a \<and> is_zero b))"

definition d_eq :: "double \<Rightarrow> double \<Rightarrow> bool" where
  "d_eq a b = (a \<noteq> NotANumber \<and> b \<noteq> NotANumber \<and> same a b)"

text \<open>
  The intersection over union in the words of the specification, each operation a
  double operation: intersection rectangle from the max of the left edges, the max of the
  top edges, the min of the right edges and the min of the bottom edges; intersection area
  zero if the resulting width or height is negative; union area = areaA + areaB -
  intersection; IoU = intersection / union. The first argument says for which unions
  the IoU is defined as 0: the specification says when the union is 0.
\<close>

fun iou_spec_double ::
  "(double \<Rightarrow> bool) \<Rightarrow> double \<times> double \<times> double \<times> double \<Rightarrow>
   double \<times> double \<times> double \<times> double \<Rightarrow> double" where
  "iou_spec_double zero_for (xa, ya, wa, ha) (xb, yb, wb, hb) =
     (let left = d_max xa xb;
          top = d_max ya yb;
          right = d_min (d_add xa wa) (d_add xb wb);
          bottom = d_min (d_add ya ha) (d_add yb hb);
          iw = d_sub right left;
          ih = d_sub bottom top;
          inter = (if d_lt iw (Num 0) \<or> d_lt ih (Num 0) then Num 0 else d_mul iw ih);
          union = d_sub (d_add (d_mul wa ha) (d_mul wb hb)) inter
      in if zero_for union then Num 0 else d_div inter union)"

text \<open>The two loops as functions, as for the exact arithmetic.\<close>

definition keeps_double ::
  "double \<Rightarrow> double \<times> double \<times> double \<times> double \<Rightarrow> double prediction_of \<Rightarrow> bool" where
  "keeps_double t b p = (\<not> d_gt (calculateIoU_double b (bbox p)) t)"

fun nms_double :: "double \<Rightarrow> double prediction_of list \<Rightarrow> double prediction_of list" where
  "nms_double t [] = []"
| "nms_double t (c # xs) =
     (if too_large_double c then nms_double t xs
      else c # nms_double t (filter (keeps_double t (bbox c)) xs))"

text \<open>The box a double box denotes, for the exact intersection over union.\<close>

definition exact_box :: "double \<times> double \<times> double \<times> double \<Rightarrow> rat \<times> rat \<times> rat \<times> rat" where
  "exact_box b = (case b of (x, y, width, height) \<Rightarrow> (val x, val y, val width, val height))"

subsection \<open>Sample predictions in doubles\<close>

definition person_b_double :: "double prediction_of" where
  "person_b_double =
     \<lparr>bbox = (Num 100, Num 100, Num 100, Num 200), class' = ''person'', score = fl (9 / 10)\<rparr>"

definition person_b_shifted_double :: "double prediction_of" where
  "person_b_shifted_double =
     \<lparr>bbox = (Num 110, Num 100, Num 100, Num 200), class' = ''person'', score = fl (85 / 100)\<rparr>"

definition person_b_wider_double :: "double prediction_of" where
  "person_b_wider_double =
     \<lparr>bbox = (Num 100, Num 100, Num 200, Num 200), class' = ''person'', score = fl (8 / 10)\<rparr>"

definition person_c_double :: "double prediction_of" where
  "person_c_double =
     \<lparr>bbox = (Num 500, Num 100, Num 100, Num 200), class' = ''person'', score = fl (7 / 10)\<rparr>"

definition person_wide_double :: "double prediction_of" where
  "person_wide_double =
     \<lparr>bbox = (Num 0, Num 0, Num 250, Num 125), class' = ''person'', score = fl (9 / 10)\<rparr>"

definition person_inner_double :: "double prediction_of" where
  "person_inner_double =
     \<lparr>bbox = (Num 0, Num 0, Num 125, Num 125), class' = ''person'', score = fl (8 / 10)\<rparr>"

text \<open>The box \<open>[0, 100, 100, 180]\<close> and the box \<open>[0, 100, 100, 54.000000000000014]\<close>.\<close>

definition person_180 :: "double prediction_of" where
  "person_180 =
     \<lparr>bbox = (Num 0, Num 100, Num 100, Num 180), class' = ''person'', score = fl (9 / 10)\<rparr>"

definition person_54 :: "double prediction_of" where
  "person_54 =
     \<lparr>bbox = (Num 0, Num 100, Num 100, Num (3799912185593857 / 70368744177664)),
      class' = ''person'', score = fl (8 / 10)\<rparr>"

text \<open>The box \<open>[0, 0, 230.4, 128]\<close>.\<close>

definition person_230 :: "double prediction_of" where
  "person_230 =
     \<lparr>bbox = (Num 0, Num 0, Num (8106479329266893 / 35184372088832), Num 128),
      class' = ''person'', score = fl (9 / 10)\<rparr>"

text \<open>A box of width and height \<open>5 * 2^-55\<close> (1.3877787807814457e-16) at \<open>(1, 1)\<close>.\<close>

definition tiny_box :: "double \<times> double \<times> double \<times> double" where
  "tiny_box = (Num 1, Num 1, Num (5 / 2 ^ 55), Num (5 / 2 ^ 55))"

lemmas samples_double = person_b_double_def person_b_shifted_double_def
  person_b_wider_double_def person_c_double_def person_wide_double_def person_inner_double_def person_180_def
  person_54_def person_230_def tiny_box_def

section \<open>Properties\<close>

subsection \<open>What the loops and the sort compute\<close>

lemma remove_overlapping_filter:
  "i \<le> length xs \<Longrightarrow>
   remove_overlapping i b t xs = Some (filter (keeps t b) (take i xs) @ drop i xs)"
proof (induction i arbitrary: xs)
  case 0
  then show ?case by simp
next
  case (Suc i)
  then have i: "i < length xs" by simp
  let ?ys = "take i xs @ drop (Suc i) xs"
  have len: "i \<le> length ?ys" using i by simp
  have tk: "take i ?ys = take i xs" using i by simp
  have dr: "drop i ?ys = drop (Suc i) xs" using i by simp
  show ?case
  proof (cases "t < calculateIoU b (bbox (xs ! i))")
    case True
    then show ?thesis
      using i Suc.IH [OF len] tk dr
      by (simp add: take_Suc_conv_app_nth keeps_def)
  next
    case False
    then show ?thesis
      using i Suc.IH [of xs]
      by (simp add: take_Suc_conv_app_nth keeps_def Cons_nth_drop_Suc)
  qed
qed

lemma nms_loop_nms: "nms_loop t xs res = Some (res @ nms t xs)"
proof (induction t xs res rule: nms_loop.induct)
  case (1 t res)
  then show ?case by simp
next
  case (2 t c xs res)
  show ?case
  proof (cases "too_large c")
    case True
    then show ?thesis using 2(1) by simp
  next
    case False
    have ro: "remove_overlapping (length xs) (bbox c) t xs = Some (filter (keeps t (bbox c)) xs)"
      using remove_overlapping_filter [of "length xs" xs "bbox c" t] by simp
    show ?thesis using False ro 2(2) [OF False ro] by simp
  qed
qed

lemma insert_sorted_insort:
  "insert_sorted by_score a bs = insort_key (\<lambda>p. - score p) a bs"
  by (induction bs) (auto simp: by_score_def)

lemma array_sort_sort_key:
  "array_sort by_score xs = sort_key (\<lambda>p. - score p) xs"
  by (induction xs) (simp_all add: array_sort_def insert_sorted_insort)

lemma subseq_nms: "subseq (nms t xs) xs"
proof (induction t xs rule: nms.induct)
  case (1 t)
  then show ?case by simp
next
  case (2 t c xs)
  show ?case
  proof (cases "too_large c")
    case True
    then show ?thesis using 2(1) by (simp add: list_emb_Cons)
  next
    case False
    have "subseq (nms t (filter (keeps t (bbox c)) xs)) (filter (keeps t (bbox c)) xs)"
      using 2(2) [OF False] .
    also have "subseq (filter (keeps t (bbox c)) xs) xs" by simp
    finally show ?thesis using False by simp
  qed
qed

lemma subseq_set: "subseq xs ys \<Longrightarrow> set xs \<subseteq> set ys"
  by (induction rule: list_emb.induct) auto

lemma set_nms: "set (nms t xs) \<subseteq> set xs"
  using subseq_nms [of t xs] by (rule subseq_set)

lemma subseq_sorted_wrt:
  "subseq xs ys \<Longrightarrow> sorted_wrt R ys \<Longrightarrow> sorted_wrt R xs"
proof (induction rule: list_emb.induct)
  case (list_emb_Nil ys)
  then show ?case by simp
next
  case (list_emb_Cons xs ys y)
  then show ?case by simp
next
  case (list_emb_Cons2 x y xs ys)
  then have "set xs \<subseteq> set ys" by (simp add: subseq_set)
  with list_emb_Cons2 show ?case by auto
qed

lemma nms_not_too_large: "p \<in> set (nms t xs) \<Longrightarrow> \<not> too_large p"
  by (induction t xs rule: nms.induct) (auto split: if_splits)

lemma nms_pairwise: "sorted_wrt (\<lambda>a b. keeps t (bbox a) b) (nms t xs)"
proof (induction t xs rule: nms.induct)
  case (1 t)
  then show ?case by simp
next
  case (2 t c xs)
  have "\<forall>p \<in> set (nms t (filter (keeps t (bbox c)) xs)). keeps t (bbox c) p"
    using set_nms [of t "filter (keeps t (bbox c)) xs"] by auto
  with 2 show ?case by simp
qed

lemma nms_fixpoint:
  "sorted_wrt (\<lambda>a b. keeps t (bbox a) b) xs \<Longrightarrow> \<forall>p \<in> set xs. \<not> too_large p \<Longrightarrow> nms t xs = xs"
  by (induction xs) simp_all

lemma applyNMS_nms: "applyNMS ds t = Some (nms t (array_sort by_score ds))"
  by (cases ds) (simp_all add: applyNMS_def array_sort_def nms_loop_nms)

lemma detectObjects_nms:
  "detectObjects vw vh ps =
     Some (nms (3 / 10) (sort_key (\<lambda>p. - score p) (filter (is_jamaah vw vh) ps)))"
  by (simp add: detectObjects_def applyNMS_nms array_sort_sort_key sort_key_id_if_sorted)

lemma is_jamaah_stage1: "is_jamaah vw vh p = stage1_conditions vw vh p"
proof (cases "bbox p")
  case (fields x y width height)
  show ?thesis
  proof (cases "height = 0")
    case True
    with fields show ?thesis
      by (simp add: is_jamaah_def stage1_conditions_def)
  next
    case False
    with fields show ?thesis
      by (auto simp: is_jamaah_def stage1_conditions_def js_div_def Let_def mult.commute mult.left_commute)
  qed
qed

lemma is_jamaah_wellformed: "is_jamaah vw vh p \<Longrightarrow> \<not> malformed p"
  by (cases "bbox p") (auto simp: is_jamaah_def malformed_def Let_def split: if_splits)

lemma output_member:
  "d \<in> set (nms t (sort_key f (filter P ps))) \<Longrightarrow> d \<in> set ps \<and> P d"
  using set_nms [of t "sort_key f (filter P ps)"] by auto

lemma filter_wellformed:
  "filter (is_jamaah vw vh) (filter (\<lambda>d. \<not> malformed d) ps) = filter (is_jamaah vw vh) ps"
  by (induction ps) (auto dest: is_jamaah_wellformed)

lemma applyNMS_store_run:
  assumes "detections < length h"
  shows "\<exists>h'. applyNMS_store h detections t = Some (h', length h) \<and>
           take (length h) h' = h \<and> length h < length h' \<and>
           applyNMS (h ! detections) t = Some (h' ! length h)"
proof (cases "h ! detections = []")
  case True
  then show ?thesis
    by (simp add: applyNMS_store_def new_array_def applyNMS_def)
next
  case False
  define ranked where "ranked = array_sort by_score (h ! detections)"
  define h' where "h' = h @ [nms t ranked, []]"
  have "applyNMS_store h detections t = Some (h', length h)"
    using False assms
    by (simp add: applyNMS_store_def new_array_def nth_append nms_loop_nms
        ranked_def h'_def list_update_append)
  moreover have "applyNMS (h ! detections) t = Some (h' ! length h)"
    by (simp add: applyNMS_nms h'_def ranked_def)
  ultimately show ?thesis
    by (simp add: h'_def)
qed

lemma detectObjects_store_run:
  assumes "predictions < length h"
  shows "\<exists>h'. detectObjects_store vw vh h predictions = Some (h', Suc (length h)) \<and>
           take (length h) h' = h \<and> Suc (length h) < length h' \<and>
           detectObjects vw vh (h ! predictions) = Some (h' ! Suc (length h))"
proof -
  define kept where "kept = filter (is_jamaah vw vh) (h ! predictions)"
  define h2 where "h2 = h @ [array_sort by_score kept]"
  have len: "length h < length h2" "length h2 = Suc (length h)"
    by (simp_all add: h2_def)
  obtain h' where run: "applyNMS_store h2 (length h) (3 / 10) = Some (h', length h2)"
    and frame: "take (length h2) h' = h2" and grow: "length h2 < length h'"
    and out: "applyNMS (h2 ! length h) (3 / 10) = Some (h' ! length h2)"
    using applyNMS_store_run [OF len(1), of "3 / 10"] by blast
  have "detectObjects_store vw vh h predictions = Some (h', Suc (length h))"
    using run by (simp add: detectObjects_store_def new_array_def kept_def h2_def)
  moreover have "take (length h) h' = h"
  proof -
    have "take (length h) h' = take (length h) (take (length h2) h')"
      using len by simp
    also have "\<dots> = take (length h) h2"
      by (simp only: frame)
    also have "\<dots> = h"
      by (simp add: h2_def)
    finally show ?thesis .
  qed
  moreover have "detectObjects vw vh (h ! predictions) = Some (h' ! Suc (length h))"
    using out by (simp add: detectObjects_def h2_def kept_def len)
  ultimately show ?thesis using grow len by simp
qed

subsection \<open>Evaluation of double arithmetic\<close>

lemma bit_length_numeral:
  "bit_length 0 = 0"
  "bit_length 1 = 1"
  "bit_length (Suc 0) = 1"
  "bit_length (numeral Num.One) = 1"
  "bit_length (numeral (Num.Bit0 n)) = Suc (bit_length (numeral n))"
  "bit_length (numeral (Num.Bit1 n)) = Suc (bit_length (numeral n))"
proof -
  show "bit_length 0 = 0" by (simp add: bit_length.simps)
  show suc: "bit_length (Suc 0) = 1"
    by (simp add: bit_length.simps [of "Suc 0"] bit_length.simps [of 0])
  then show one: "bit_length 1 = 1" by simp
  show "bit_length (numeral Num.One) = 1" using one by simp
  have "numeral (Num.Bit0 n) div (2::nat) = numeral n" by simp
  then show "bit_length (numeral (Num.Bit0 n)) = Suc (bit_length (numeral n))"
    by (simp add: bit_length.simps [of "numeral (Num.Bit0 n)"])
  have "numeral (Num.Bit1 n) div (2::nat) = numeral n" by simp
  then show "bit_length (numeral (Num.Bit1 n)) = Suc (bit_length (numeral n))"
    by (simp add: bit_length.simps [of "numeral (Num.Bit1 n)"])
qed

lemma floor_rat_numeral:
  "\<lfloor>numeral a / numeral b :: rat\<rfloor> = numeral a div numeral b"
  by (metis floor_divide_of_int_eq of_int_numeral)

lemma ceiling_rat_numeral:
  "\<lceil>numeral a / numeral b :: rat\<rceil> = - (- numeral a div numeral b)"
  unfolding ceiling_def
  by (metis divide_minus_left floor_divide_of_int_eq of_int_neg_numeral of_int_numeral)

lemmas fl_eval = floor_rat_numeral ceiling_rat_numeral fl_def nearest_def ilog2_def
  round_even_def pow2_def Let_def bit_length_numeral

lemmas double_eval = fl_eval d_sub_def d_mul_def d_div_def d_gt_def d_max_def d_min_def
  is_zero_def is_inf_def

lemmas unfold_double = detectObjects_double_def is_jamaah_double_def applyNMS_double_def
  array_sort_double_def too_large_double_def by_score_double_def

subsection \<open>The rounding function\<close>

lemma bit_length_bounds:
  "0 < n \<Longrightarrow> 2 ^ (bit_length n - 1) \<le> n \<and> n < 2 ^ bit_length n"
proof (induction n rule: bit_length.induct)
  case (1 n)
  show ?case
  proof (cases "n div 2 = 0")
    case True
    with 1(2) have "n = 1" by (simp add: div_eq_0_iff)
    then show ?thesis
      by (simp add: bit_length_numeral)
  next
    case False
    then have pos: "0 < n div 2" by simp
    have n: "n \<noteq> 0" using 1(2) by simp
    have IH: "2 ^ (bit_length (n div 2) - 1) \<le> n div 2 \<and> n div 2 < 2 ^ bit_length (n div 2)"
      using 1(1) [OF n pos] .
    have len: "bit_length n = Suc (bit_length (n div 2))"
      using n by (simp add: bit_length.simps [of n])
    have len0: "0 < bit_length (n div 2)"
      using pos by (simp add: bit_length.simps [of "n div 2"])
    then obtain k where k: "bit_length (n div 2) = Suc k"
      by (cases "bit_length (n div 2)") simp_all
    from IH have "2 ^ k \<le> n div 2" "n div 2 < 2 ^ Suc k"
      by (simp_all add: k)
    then have "2 * 2 ^ k \<le> n" "n < 2 * 2 ^ Suc k"
      by arith+
    then show ?thesis
      by (simp add: len k)
  qed
qed

lemma pow2_pos: "0 < pow2 e"
  by (simp add: pow2_def)

text \<open>\<open>ilog2\<close> is the binary exponent.\<close>

lemma ilog2_bounds:
  assumes "0 < a"
  shows "pow2 (ilog2 a) \<le> a \<and> a < pow2 (ilog2 a + 1)"
proof (cases "1 \<le> a")
  case True
  define n where "n = nat \<lfloor>a\<rfloor>"
  have n: "0 < n" using True by (simp add: n_def)
  have "(of_nat n :: rat) = of_int \<lfloor>a\<rfloor>"
    using True by (simp add: n_def)
  then have fl: "of_nat n \<le> a" "a < of_nat n + 1"
    using floor_correct [of a] by simp_all
  obtain k where k: "bit_length n = Suc k"
    using n by (cases "bit_length n") (simp_all add: bit_length.simps [of n])
  have b: "2 ^ k \<le> n" "n < 2 ^ Suc k"
    using bit_length_bounds [OF n] by (simp_all add: k)
  have e: "ilog2 a = int k"
    using True by (simp add: ilog2_def n_def [symmetric] k)
  have "(2::rat) ^ k \<le> of_nat n"
    using b(1) by (metis of_nat_le_iff of_nat_numeral of_nat_power)
  then have "(2::rat) ^ k \<le> a"
    using fl(1) by (rule order_trans)
  then have lo: "pow2 (int k) \<le> a"
    by (simp add: pow2_def)
  have "n + 1 \<le> 2 ^ Suc k" using b(2) by simp
  then have "(of_nat (n + 1) :: rat) \<le> of_nat (2 ^ Suc k)"
    by (simp only: of_nat_le_iff)
  then have "a < 2 ^ Suc k"
    using fl(2) by simp
  then have hi: "a < pow2 (int k + 1)"
    by (simp add: pow2_def nat_add_distrib)
  from lo hi show ?thesis by (simp add: e)
next
  case False
  then have a1: "a < 1" by simp
  define m where "m = nat (\<lceil>1 / a\<rceil> - 1)"
  have inv: "1 < 1 / a" using assms a1 by simp
  then have "1 < \<lceil>1 / a\<rceil>" by (simp only: less_ceiling_iff of_int_1)
  then have c2: "2 \<le> \<lceil>1 / a\<rceil>" by simp
  then have nonneg: "0 \<le> \<lceil>1 / a\<rceil> - 1" by linarith
  have mi: "int m = \<lceil>1 / a\<rceil> - 1"
    using nonneg by (simp only: m_def int_nat_eq if_True)
  have m: "0 < m" using c2 mi by linarith
  have up: "1 / a \<le> of_nat m + 1"
  proof -
    have "1 / a \<le> of_int \<lceil>1 / a\<rceil>" by (rule le_of_int_ceiling)
    also have "\<dots> = of_int (int m) + 1" by (simp add: mi)
    finally show ?thesis by simp
  qed
  have lowr: "of_nat m < 1 / a"
  proof -
    have "of_int (\<lceil>1 / a\<rceil> - 1) < 1 / a"
      using ceiling_correct [of "1 / a"] by simp
    then show ?thesis by (simp add: mi [symmetric])
  qed
  obtain k where k: "bit_length m = Suc k"
    using m by (cases "bit_length m") (simp_all add: bit_length.simps [of m])
  have b: "2 ^ k \<le> m" "m < 2 ^ Suc k"
    using bit_length_bounds [OF m] by (simp_all add: k)
  have e: "ilog2 a = - int (Suc k)"
    using False by (simp add: ilog2_def m_def [symmetric] k)
  have "m + 1 \<le> 2 ^ Suc k" using b(2) by simp
  then have "(of_nat (m + 1) :: rat) \<le> of_nat (2 ^ Suc k)"
    by (simp only: of_nat_le_iff)
  then have "1 / a \<le> 2 ^ Suc k" using up by simp
  then have lo: "1 / 2 ^ Suc k \<le> a"
    using assms by (simp add: field_simps)
  have "(2::rat) ^ k \<le> of_nat m"
    using b(1) by (metis of_nat_le_iff of_nat_numeral of_nat_power)
  then have "2 ^ k < 1 / a" using lowr by (rule le_less_trans)
  then have hi: "a < 1 / 2 ^ k"
    using assms by (simp add: field_simps)
  have p1: "pow2 (- int (Suc k)) = 1 / 2 ^ Suc k"
    by (simp add: pow2_def nat_add_distrib)
  have "- int (Suc k) + 1 = - int k" by simp
  then have p2: "pow2 (- int (Suc k) + 1) = 1 / 2 ^ k"
    by (cases k) (simp_all add: pow2_def nat_add_distrib)
  from lo hi show ?thesis
    by (simp only: e p1 p2)
qed

text \<open>\<open>round_even\<close> is a nearest integer, and leaves an integer as it is.\<close>

lemma round_even_near: "\<bar>of_int (round_even a) - a\<bar> \<le> 1 / 2"
proof -
  have "of_int \<lfloor>a\<rfloor> \<le> a" "a < of_int \<lfloor>a\<rfloor> + 1"
    by (simp_all add: floor_less_cancel)
  then show ?thesis
    by (auto simp: round_even_def Let_def)
qed

lemma round_even_of_int: "round_even (of_int n) = n"
  by (simp add: round_even_def)

text \<open>The rounding error is at most half a unit in the last place.\<close>

lemma nearest_near:
  "\<bar>nearest a - a\<bar> \<le> pow2 (max (ilog2 a - 52) (- 1074)) / 2"
proof -
  define q where "q = pow2 (max (ilog2 a - 52) (- 1074))"
  define r :: rat where "r = of_int (round_even (a / q))"
  have q: "0 < q" by (simp add: q_def pow2_pos)
  have near: "\<bar>r - a / q\<bar> \<le> 1 / 2"
    unfolding r_def by (rule round_even_near)
  have "r * q - a = (r - a / q) * q"
    using q by (simp add: left_diff_distrib)
  then have "\<bar>r * q - a\<bar> = \<bar>r - a / q\<bar> * q"
    using q by (simp add: abs_mult)
  also have "\<dots> \<le> 1 / 2 * q"
    using near q by (intro mult_right_mono) simp_all
  finally have "\<bar>r * q - a\<bar> \<le> q / 2" by simp
  then show ?thesis
    by (simp add: nearest_def Let_def q_def [symmetric] r_def [symmetric])
qed

text \<open>The double literals of the code.\<close>

lemma literals:
  "fl (65 / 100) = Num (5854679515581645 / 9007199254740992)"
  "fl (4 / 10) = Num (3602879701896397 / 9007199254740992)"
  "fl (8 / 10) = Num (3602879701896397 / 4503599627370496)"
  "fl (25 / 10) = Num (5 / 2)"
  "fl (3 / 10) = Num (5404319552844595 / 18014398509481984)"
  "fl (15 / 100) = Num (5404319552844595 / 36028797018963968)"
  "fl (18 / 10) = Num (8106479329266893 / 4503599627370496)"
  "fl (9 / 10) = Num (8106479329266893 / 9007199254740992)"
  by (simp_all add: fl_eval)

subsection \<open>What the loops compute, in doubles\<close>

lemma remove_overlapping_double_filter:
  "i \<le> length xs \<Longrightarrow>
   remove_overlapping_double i b t xs =
     Some (filter (keeps_double t b) (take i xs) @ drop i xs)"
proof (induction i arbitrary: xs)
  case 0
  then show ?case by simp
next
  case (Suc i)
  then have i: "i < length xs" by simp
  let ?ys = "take i xs @ drop (Suc i) xs"
  have len: "i \<le> length ?ys" using i by simp
  have tk: "take i ?ys = take i xs" using i by simp
  have dr: "drop i ?ys = drop (Suc i) xs" using i by simp
  show ?case
  proof (cases "d_gt (calculateIoU_double b (bbox (xs ! i))) t")
    case True
    then show ?thesis
      using i Suc.IH [OF len] tk dr
      by (simp add: take_Suc_conv_app_nth keeps_double_def)
  next
    case False
    then show ?thesis
      using i Suc.IH [of xs]
      by (simp add: take_Suc_conv_app_nth keeps_double_def Cons_nth_drop_Suc)
  qed
qed

lemma nms_loop_double_nms: "nms_loop_double t xs res = Some (res @ nms_double t xs)"
proof (induction t xs res rule: nms_loop_double.induct)
  case (1 t res)
  then show ?case by simp
next
  case (2 t c xs res)
  show ?case
  proof (cases "too_large_double c")
    case True
    then show ?thesis using 2(1) by simp
  next
    case False
    have ro: "remove_overlapping_double (length xs) (bbox c) t xs =
        Some (filter (keeps_double t (bbox c)) xs)"
      using remove_overlapping_double_filter [of "length xs" xs "bbox c" t] by simp
    show ?thesis using False ro 2(2) [OF False ro] by simp
  qed
qed

lemma set_nms_double: "set (nms_double t xs) \<subseteq> set xs"
proof (induction t xs rule: nms_double.induct)
  case (1 t)
  then show ?case by simp
next
  case (2 t c xs)
  show ?case
  proof (cases "too_large_double c")
    case True
    then show ?thesis using 2(1) by auto
  next
    case False
    then show ?thesis using 2(2) by auto
  qed
qed

lemma nms_double_not_too_large: "p \<in> set (nms_double t xs) \<Longrightarrow> \<not> too_large_double p"
  by (induction t xs rule: nms_double.induct) (auto split: if_splits)

lemma nms_double_pairwise:
  "sorted_wrt (\<lambda>a b. keeps_double t (bbox a) b) (nms_double t xs)"
proof (induction t xs rule: nms_double.induct)
  case (1 t)
  then show ?case by simp
next
  case (2 t c xs)
  have "\<forall>p \<in> set (nms_double t (filter (keeps_double t (bbox c)) xs)). keeps_double t (bbox c) p"
    using set_nms_double [of t "filter (keeps_double t (bbox c)) xs"] by auto
  with 2 show ?case by simp
qed

lemma set_insert_sorted_double: "set (insert_sorted_double cmp a bs) = insert a (set bs)"
  by (induction bs) auto

lemma set_array_sort_double: "set (array_sort_double cmp xs) = set xs"
  by (induction xs) (simp_all add: array_sort_double_def set_insert_sorted_double)

lemma applyNMS_double_nms:
  "applyNMS_double ds t = Some (nms_double t (array_sort_double by_score_double ds))"
  by (cases ds) (simp_all add: applyNMS_double_def array_sort_double_def nms_loop_double_nms)

lemma detectObjects_double_nms:
  "detectObjects_double vw vh ps =
     Some (nms_double (fl (3 / 10))
       (array_sort_double by_score_double
         (array_sort_double by_score_double (filter (is_jamaah_double vw vh) ps))))"
  by (simp add: detectObjects_double_def applyNMS_double_nms)

lemma output_double_member:
  assumes "d \<in> set (nms_double t (array_sort_double c1 (array_sort_double c2 (filter P ps))))"
  shows "d \<in> set ps \<and> P d"
proof -
  have "d \<in> set (array_sort_double c1 (array_sort_double c2 (filter P ps)))"
    using assms set_nms_double by blast
  then show ?thesis by (simp add: set_array_sort_double)
qed

subsection \<open>Arithmetic facts\<close>

lemma d_add_commute: "d_add a b = d_add b a"
  by (cases a; cases b) (simp_all add: add.commute)

lemma d_mul_commute: "d_mul a b = d_mul b a"
  by (simp add: d_mul_def mult.commute eq_commute disj_commute conj_commute)

lemma d_max_commute: "d_max a b = d_max b a"
  by (cases a; cases b) (auto simp: d_max_def)

lemma d_min_commute: "d_min a b = d_min b a"
  by (cases a; cases b) (auto simp: d_min_def)

lemma calculateIoU_double_commute: "calculateIoU_double a b = calculateIoU_double b a"
proof -
  obtain xa ya wa ha where A: "a = (xa, ya, wa, ha)" by (cases a)
  obtain xb yb wb hb where B: "b = (xb, yb, wb, hb)" by (cases b)
  show ?thesis
    unfolding A B calculateIoU_double.simps Let_def
    by (simp only: d_max_commute [of xa xb] d_max_commute [of ya yb]
        d_min_commute [of "d_add xa wa" "d_add xb wb"]
        d_min_commute [of "d_add ya ha" "d_add yb hb"]
        d_add_commute [of "d_mul wa ha" "d_mul wb hb"])
qed

lemma fl_not_nan: "fl x \<noteq> NotANumber"
  by (simp add: fl_def Let_def)

lemma fl_not_minus_inf: "0 \<le> x \<Longrightarrow> fl x \<noteq> MinusInfinity"
  by (simp add: fl_def Let_def)

lemma d_add_nan_right: "d_add a NotANumber = NotANumber"
  by (cases a) simp_all

lemma d_sub_nan: "d_sub s NotANumber = NotANumber"
  by (simp add: d_sub_def d_add_nan_right)

lemma d_sub_inf: "\<not> d_gt (d_sub s Infinity) (Num 0)"
  by (cases s) (simp_all add: d_sub_def d_gt_def)

lemma d_max_zero_sign: "\<not> negative (d_max (Num 0) v)"
  by (cases v) (auto simp: d_max_def)

lemma d_max_zero_above: "d_lt v (Num 0) \<Longrightarrow> d_max (Num 0) v = Num 0"
  by (cases v) (auto simp: d_max_def)

lemma d_max_zero_same: "\<not> d_lt v (Num 0) \<Longrightarrow> same (d_max (Num 0) v) v"
  by (cases v) (auto simp: d_max_def same_def is_zero_def)

lemma val_nonneg: "\<not> negative a \<Longrightarrow> 0 \<le> val a"
  by (cases a) simp_all

lemma d_mul_not_minus_inf:
  assumes "negative a = negative b" "0 \<le> val a * val b"
  shows "d_mul a b \<noteq> MinusInfinity"
  using assms by (simp add: d_mul_def fl_not_minus_inf)

lemma d_mul_same: "same a a' \<Longrightarrow> same b b' \<Longrightarrow> same (d_mul a b) (d_mul a' b')"
  by (auto simp: same_def d_mul_def is_zero_def is_inf_def)

lemma d_add_minus_zero: "d_add s MinusZero = s"
  by (cases s) simp_all

lemma d_add_plus_zero: "same (d_add s (Num 0)) s"
  by (cases s) (simp_all add: same_def is_zero_def)

lemma d_sub_same: "same x x' \<Longrightarrow> same (d_sub s x) (d_sub s x')"
proof -
  have zero: "same (d_sub s x) s" if "is_zero x" for x
    using that d_add_plus_zero [of s]
    by (auto simp: is_zero_def d_sub_def d_add_minus_zero same_def)
  have sym: "same a b \<Longrightarrow> same b a" for a b
    by (auto simp: same_def)
  have trans: "same a b \<Longrightarrow> same b c \<Longrightarrow> same a c" for a b c
    by (auto simp: same_def)
  assume "same x x'"
  then consider "x = x'" | "is_zero x" "is_zero x'"
    by (auto simp: same_def)
  then show ?thesis
  proof cases
    case 1
    then show ?thesis by (simp add: same_def)
  next
    case 2
    then show ?thesis using zero [of x] zero [of x'] sym trans by blast
  qed
qed

lemma same_positive: "same u u' \<Longrightarrow> d_gt u (Num 0) \<Longrightarrow> u' = u"
  by (auto simp: same_def is_zero_def d_gt_def)

lemma same_gt_zero: "same u u' \<Longrightarrow> d_gt u (Num 0) = d_gt u' (Num 0)"
  by (auto simp: same_def is_zero_def d_gt_def)

lemma d_div_same: "same x x' \<Longrightarrow> d_gt u (Num 0) \<Longrightarrow> same (d_div x u) (d_div x' u)"
  by (cases u) (auto simp: same_def d_div_def is_zero_def is_inf_def d_gt_def)

lemma d_div_zero_positive: "d_gt u (Num 0) \<Longrightarrow> d_div (Num 0) u = Num 0"
  by (cases u) (auto simp: d_div_def is_zero_def is_inf_def d_gt_def)

lemma d_div_not_nan:
  assumes "d_gt u (Num 0)" "i \<noteq> NotANumber" "\<not> (is_inf i \<and> u = Infinity)"
  shows "d_div i u \<noteq> NotANumber"
  using assms
  by (cases u) (auto simp: d_div_def is_zero_def is_inf_def d_gt_def fl_not_nan)

lemma d_mul_zero_left:
  "\<not> negative y \<Longrightarrow> d_mul (Num 0) y = Num 0 \<or> d_mul (Num 0) y = NotANumber"
  by (cases y) (auto simp: d_mul_def is_zero_def is_inf_def)

text \<open>The quotient of the last line of calculateIoU is never NaN.\<close>

lemma guarded_quotient_not_nan:
  assumes "i = d_mul p q" "\<not> negative p" "\<not> negative q"
    and "d_gt (d_sub s i) (Num 0)"
  shows "d_div i (d_sub s i) \<noteq> NotANumber"
proof (rule d_div_not_nan [OF assms(4)])
  show "i \<noteq> NotANumber"
    using assms(4) by (auto simp: d_sub_nan d_gt_def)
  have "i \<noteq> Infinity"
    using assms(4) d_sub_inf by auto
  moreover have "i \<noteq> MinusInfinity"
    unfolding assms(1)
    using assms(2,3) val_nonneg [of p] val_nonneg [of q]
    by (intro d_mul_not_minus_inf) simp_all
  ultimately show "\<not> (is_inf i \<and> d_sub s i = Infinity)"
    by (simp add: is_inf_def)
qed

lemma calculateIoU_double_not_nan: "calculateIoU_double a b \<noteq> NotANumber"
proof -
  obtain xa ya wa ha where A: "a = (xa, ya, wa, ha)" by (cases a)
  obtain xb yb wb hb where B: "b = (xb, yb, wb, hb)" by (cases b)
  show ?thesis
    unfolding A B calculateIoU_double.simps Let_def
    using guarded_quotient_not_nan [OF refl d_max_zero_sign d_max_zero_sign]
    by simp
qed

lemma nms_double_nth_pairwise:
  assumes "i < length (nms_double t xs)" "j < length (nms_double t xs)" "i \<noteq> j"
  shows "\<not> d_gt (calculateIoU_double (bbox (nms_double t xs ! i)) (bbox (nms_double t xs ! j))) t"
proof -
  let ?out = "nms_double t xs"
  have ordered: "keeps_double t (bbox (?out ! m)) (?out ! n)"
    if "m < n" "n < length ?out" for m n
    using nms_double_pairwise [of t xs] that by (simp add: sorted_wrt_iff_nth_less)
  show ?thesis
  proof (cases "i < j")
    case True
    then show ?thesis using ordered assms by (simp add: keeps_double_def)
  next
    case False
    then have "j < i" using assms by simp
    then have "keeps_double t (bbox (?out ! j)) (?out ! i)"
      using ordered assms by simp
    then show ?thesis
      by (simp add: keeps_double_def calculateIoU_double_commute)
  qed
qed

lemma not_too_large_double_iff:
  "(\<not> too_large_double d) =
     (case bbox d of (x, y, width, height) \<Rightarrow>
        \<not> (d_gt width (Num 200) \<and> d_gt (d_div width height) (fl (18 / 10))))"
  by (cases "bbox d") (simp add: too_large_double_def)

lemma score_order:
  "\<not> d_gt (d_sub (fl (8 / 10)) (fl (9 / 10))) (Num 0)"
  "d_gt (d_sub (fl (9 / 10)) (fl (8 / 10))) (Num 0)"
  "d_gt (Num (1 / 2)) (fl (3 / 10))"
  by (simp_all add: double_eval)

subsection \<open>The claims\<close>

text \<open>
  C1. For every list of predictions and all frame dimensions, the processor returns a list
  in which every detection satisfies all Stage 1 conditions; a detection that fails one
  of them is not in the output.
\<close>

theorem output_passes_stage1:
  "\<exists>jamaah. detectObjects frameWidth frameHeight predictions = Some jamaah \<and>
     (\<forall>d \<in> set jamaah. stage1_conditions frameWidth frameHeight d) \<and>
     (\<forall>d. \<not> stage1_conditions frameWidth frameHeight d \<longrightarrow> d \<notin> set jamaah)"
proof -
  let ?out = "nms (3 / 10) (sort_key (\<lambda>p. - score p) (filter (is_jamaah frameWidth frameHeight) predictions))"
  have sub: "set ?out \<subseteq> set (filter (is_jamaah frameWidth frameHeight) predictions)"
    using set_nms [of "3 / 10" "sort_key (\<lambda>p. - score p) (filter (is_jamaah frameWidth frameHeight) predictions)"]
    by simp
  have "\<forall>d \<in> set ?out. stage1_conditions frameWidth frameHeight d"
    using sub by (auto simp: is_jamaah_stage1)
  then show ?thesis
    by (auto simp: detectObjects_nms)
qed

theorem output_passes_stage1_witness:
  "detectObjects 640 480 [car_a, person_faint, person_a, person_flat] = Some [person_a] \<and>
   stage1_conditions 640 480 person_a \<and>
   \<not> stage1_conditions 640 480 car_a \<and>
   \<not> stage1_conditions 640 480 person_faint \<and>
   \<not> stage1_conditions 640 480 person_flat"
  using output_passes_stage1 [of 640 480 "[car_a, person_faint, person_a, person_flat]"]
  by (simp add: detectObjects_def is_jamaah_def js_div_def applyNMS_def array_sort_def
        too_large_def stage1_conditions_def car_a_def person_faint_def person_a_def
        person_flat_def)

text \<open>
  C9. If the list of predictions is empty, the result is the empty sequence, whatever the
  dimensions of the frame, and no error is raised.
\<close>

theorem empty_input_empty_output:
  "detectObjects videoWidth videoHeight [] = Some []"
  by (simp add: detectObjects_def array_sort_def applyNMS_def)

theorem empty_input_empty_output_witness:
  "detectObjects 640 480 [] = Some []"
  using empty_input_empty_output [of 640 480] by simp

text \<open>
  C3. The output is sorted by score in descending order, and detections with equal scores
  keep the order they have in the input: for every score, the output detections of that
  score are a subsequence of the input detections of that score.
\<close>

theorem output_sorted_stable:
  "\<exists>jamaah. detectObjects frameWidth frameHeight predictions = Some jamaah \<and>
     sorted_wrt (\<lambda>a b. score b \<le> score a) jamaah \<and>
     (\<forall>s. subseq (filter (\<lambda>d. score d = s) jamaah) (filter (\<lambda>d. score d = s) predictions))"
proof -
  define kept where "kept = filter (is_jamaah frameWidth frameHeight) predictions"
  define ranked where "ranked = sort_key (\<lambda>p. - score p) kept"
  define out where "out = nms (3 / 10) ranked"
  have run: "detectObjects frameWidth frameHeight predictions = Some out"
    by (simp add: out_def ranked_def kept_def detectObjects_nms)
  have sub: "subseq out ranked"
    unfolding out_def by (rule subseq_nms)
  have "sorted (map (\<lambda>p. - score p) ranked)"
    unfolding ranked_def by simp
  then have "sorted_wrt (\<lambda>a b. score b \<le> score a) ranked"
    by (simp add: sorted_map)
  then have desc: "sorted_wrt (\<lambda>a b. score b \<le> score a) out"
    using sub by (rule subseq_sorted_wrt [rotated])
  have stable: "subseq (filter (\<lambda>d. score d = s) out) (filter (\<lambda>d. score d = s) predictions)" for s
  proof -
    have "filter (\<lambda>d. - score d = - s) ranked = filter (\<lambda>d. - score d = - s) kept"
      unfolding ranked_def by (rule sort_key_stable)
    then have same: "filter (\<lambda>d. score d = s) ranked = filter (\<lambda>d. score d = s) kept"
      by simp
    have "subseq (filter (\<lambda>d. score d = s) out) (filter (\<lambda>d. score d = s) ranked)"
      using sub by (rule subseq_filter)
    also have "subseq (filter (\<lambda>d. score d = s) ranked) (filter (\<lambda>d. score d = s) predictions)"
      unfolding same kept_def by (rule subseq_filter) simp
    finally show ?thesis .
  qed
  from run desc stable show ?thesis by blast
qed

theorem output_sorted_stable_witness:
  "detectObjects 1920 1080 [person_d, person_b, person_c] = Some [person_b, person_d, person_c] \<and>
   score person_b \<ge> score person_d \<and> score person_d = score person_c"
  using output_sorted_stable [of 1920 1080 "[person_d, person_b, person_c]"]
  by (simp add: unfold_code samples)

text \<open>
  C8. For every list of predictions, also with boxes of zero or negative width or height,
  the processor returns a list; no such detection is in it; and the list is the one the
  processor returns for the well-formed detections of the batch alone.
\<close>

theorem malformed_geometry_dropped:
  "\<exists>jamaah. detectObjects frameWidth frameHeight predictions = Some jamaah \<and>
     (\<forall>d \<in> set jamaah. \<not> malformed d) \<and>
     detectObjects frameWidth frameHeight (filter (\<lambda>d. \<not> malformed d) predictions) = Some jamaah"
proof -
  define out where
    "out = nms (3 / 10) (sort_key (\<lambda>p. - score p) (filter (is_jamaah frameWidth frameHeight) predictions))"
  have run: "detectObjects frameWidth frameHeight predictions = Some out"
    by (simp add: out_def detectObjects_nms)
  have wf: "\<forall>d \<in> set out. \<not> malformed d"
    unfolding out_def by (auto dest: output_member is_jamaah_wellformed)
  have "detectObjects frameWidth frameHeight (filter (\<lambda>d. \<not> malformed d) predictions) = Some out"
    by (simp only: out_def detectObjects_nms filter_wellformed)
  with run wf show ?thesis by blast
qed

theorem malformed_geometry_dropped_witness:
  "malformed person_flat \<and> malformed person_negative \<and> \<not> malformed person_a \<and>
   js_div 60 0 = PosInfinity \<and>
   detectObjects 640 480 [person_flat, person_a, person_negative] = Some [person_a] \<and>
   detectObjects 640 480 [person_a] = Some [person_a]"
  using malformed_geometry_dropped [of 640 480 "[person_flat, person_a, person_negative]"]
  by (simp add: unfold_code samples malformed_def)

text \<open>
  C10. The output of the processor is a fixpoint: running the processor on its own output,
  with the same frame dimensions, returns that output.
\<close>

theorem output_is_fixpoint:
  "\<exists>jamaah. detectObjects frameWidth frameHeight predictions = Some jamaah \<and>
     detectObjects frameWidth frameHeight jamaah = Some jamaah"
proof -
  define kept where "kept = filter (is_jamaah frameWidth frameHeight) predictions"
  define ranked where "ranked = sort_key (\<lambda>p. - score p) kept"
  define out where "out = nms (3 / 10) ranked"
  have run: "detectObjects frameWidth frameHeight predictions = Some out"
    by (simp add: out_def ranked_def kept_def detectObjects_nms)
  have sub: "subseq out ranked"
    unfolding out_def by (rule subseq_nms)
  have "set out \<subseteq> set kept"
    using set_nms [of "3 / 10" ranked] by (simp add: out_def ranked_def)
  then have "\<forall>d \<in> set out. is_jamaah frameWidth frameHeight d"
    by (auto simp: kept_def)
  then have refilter: "filter (is_jamaah frameWidth frameHeight) out = out"
    by simp
  have "sorted (map (\<lambda>p. - score p) ranked)"
    unfolding ranked_def by simp
  then have "sorted_wrt (\<lambda>a b. - score a \<le> - score b) ranked"
    by (simp add: sorted_map)
  then have "sorted_wrt (\<lambda>a b. - score a \<le> - score b) out"
    using sub by (rule subseq_sorted_wrt [rotated])
  then have "sorted (map (\<lambda>p. - score p) out)"
    by (simp add: sorted_map)
  then have resort: "sort_key (\<lambda>p. - score p) out = out"
    by (rule sort_key_id_if_sorted)
  have "nms (3 / 10) out = out"
  proof (rule nms_fixpoint)
    show "sorted_wrt (\<lambda>a b. keeps (3 / 10) (bbox a) b) out"
      unfolding out_def by (rule nms_pairwise)
    show "\<forall>p \<in> set out. \<not> too_large p"
      unfolding out_def by (simp add: nms_not_too_large)
  qed
  then have "detectObjects frameWidth frameHeight out = Some out"
    by (simp add: detectObjects_nms refilter resort)
  with run show ?thesis by blast
qed

theorem output_is_fixpoint_witness:
  "detectObjects 1920 1080 [person_c, person_wide, person_b_shifted, car_a, person_b]
     = Some [person_b, person_c] \<and>
   detectObjects 1920 1080 [person_b, person_c] = Some [person_b, person_c]"
  using output_is_fixpoint [of 1920 1080 "[person_c, person_wide, person_b_shifted, car_a, person_b]"]
  by (simp add: unfold_code samples)

text \<open>
  C7, as stated, fails: two person detections that pass Stage 1, with IoU 0.5 and scores
  0.9 and 0.8, of which the first is skipped by the test of line 332 and so removes
  nothing; the output is the detection of score 0.8, in exact arithmetic and in doubles.
\<close>

theorem overlapping_pair_counterexample:
  "is_jamaah 1920 1080 person_wide \<and> is_jamaah 1920 1080 person_inner \<and>
   score person_wide = 9 / 10 \<and> score person_inner = 8 / 10 \<and>
   calculateIoU (bbox person_wide) (bbox person_inner) = 1 / 2 \<and>
   detectObjects 1920 1080 [person_wide, person_inner] = Some [person_inner] \<and>
   detectObjects 1920 1080 [person_wide, person_inner] \<noteq> Some [person_wide] \<and>
   is_jamaah_double (Num 1920) (Num 1080) person_wide_double \<and>
   is_jamaah_double (Num 1920) (Num 1080) person_inner_double \<and>
   score person_wide_double = fl (9 / 10) \<and> score person_inner_double = fl (8 / 10) \<and>
   calculateIoU_double (bbox person_wide_double) (bbox person_inner_double) = Num (1 / 2) \<and>
   detectObjects_double (Num 1920) (Num 1080) [person_wide_double, person_inner_double]
     = Some [person_inner_double]"
  by (simp add: unfold_code samples unfold_double double_eval samples_double)

text \<open>
  C7, amended. If the input consists of exactly two person detections that pass the
  filter of Stage 1 as the code computes it, with scores 0.9 and 0.8, for which
  calculateIoU returns 0.5, and the detection of score 0.9 is not skipped by the test of
  line 332 (width > 200 and computed width/height > 1.8), then the output is the detection
  of score 0.9 alone, in whichever order the two are given.
\<close>

theorem computed_pair_keeps_best:
  assumes "is_jamaah_double frameWidth frameHeight a"
    and "is_jamaah_double frameWidth frameHeight b"
    and "score a = fl (9 / 10)" and "score b = fl (8 / 10)"
    and "calculateIoU_double (bbox a) (bbox b) = Num (1 / 2)"
    and "case bbox a of (x, y, width, height) \<Rightarrow>
           \<not> (d_gt width (Num 200) \<and> d_gt (d_div width height) (fl (18 / 10)))"
  shows "detectObjects_double frameWidth frameHeight [a, b] = Some [a] \<and>
         detectObjects_double frameWidth frameHeight [b, a] = Some [a]"
proof -
  have small: "\<not> too_large_double a"
    using assms(6) by (cases "bbox a") (simp add: too_large_double_def)
  have order1: "array_sort_double by_score_double [a, b] = [a, b]"
    using assms(3,4) score_order by (simp add: array_sort_double_def by_score_double_def)
  have order2: "array_sort_double by_score_double [b, a] = [a, b]"
    using assms(3,4) score_order by (simp add: array_sort_double_def by_score_double_def)
  have "applyNMS_double [a, b] (fl (3 / 10)) = Some [a]"
    using small assms(5) score_order(3) by (simp add: applyNMS_double_def order1)
  then show ?thesis
    using assms(1,2) by (simp add: detectObjects_double_def order1 order2)
qed

theorem computed_pair_keeps_best_witness:
  "is_jamaah_double (Num 1920) (Num 1080) person_b_double \<and>
   is_jamaah_double (Num 1920) (Num 1080) person_b_wider_double \<and>
   score person_b_double = fl (9 / 10) \<and> score person_b_wider_double = fl (8 / 10) \<and>
   calculateIoU_double (bbox person_b_double) (bbox person_b_wider_double) = Num (1 / 2) \<and>
   detectObjects_double (Num 1920) (Num 1080) [person_b_double, person_b_wider_double]
     = Some [person_b_double] \<and>
   detectObjects_double (Num 1920) (Num 1080) [person_b_wider_double, person_b_double]
     = Some [person_b_double]"
proof -
  have 1: "is_jamaah_double (Num 1920) (Num 1080) person_b_double"
    by (simp add: is_jamaah_double_def double_eval samples_double)
  have 2: "is_jamaah_double (Num 1920) (Num 1080) person_b_wider_double"
    by (simp add: is_jamaah_double_def double_eval samples_double)
  have 3: "score person_b_double = fl (9 / 10)" by (simp add: samples_double)
  have 4: "score person_b_wider_double = fl (8 / 10)" by (simp add: samples_double)
  have 5: "calculateIoU_double (bbox person_b_double) (bbox person_b_wider_double) = Num (1 / 2)"
    by (simp add: double_eval samples_double)
  have 6: "case bbox person_b_double of (x, y, width, height) \<Rightarrow>
      \<not> (d_gt width (Num 200) \<and> d_gt (d_div width height) (fl (18 / 10)))"
    by (simp add: double_eval samples_double)
  from computed_pair_keeps_best [OF 1 2 3 4 5 6] 1 2 3 4 5 show ?thesis by simp
qed

text \<open>
  C6. The processor is deterministic and free of side effects. Run on a store whose array
  \<open>predictions\<close> exists, it returns a new array and leaves every array of the store as
  it was, the input among them; the returned array depends on the contents of the input
  and the frame dimensions only; and a second run on the store the first one leaves
  returns an array with the same sequence, the first output being untouched.
\<close>

theorem processor_deterministic:
  assumes "predictions < length h"
  shows "\<exists>h1 jamaah1 h2 jamaah2.
     detectObjects_store frameWidth frameHeight h predictions = Some (h1, jamaah1) \<and>
     take (length h) h1 = h \<and>
     detectObjects frameWidth frameHeight (h ! predictions) = Some (h1 ! jamaah1) \<and>
     detectObjects_store frameWidth frameHeight h1 predictions = Some (h2, jamaah2) \<and>
     take (length h1) h2 = h1 \<and>
     jamaah2 \<noteq> jamaah1 \<and>
     h2 ! jamaah2 = h1 ! jamaah1"
proof -
  obtain h1 where run1: "detectObjects_store frameWidth frameHeight h predictions = Some (h1, Suc (length h))"
    and frame1: "take (length h) h1 = h" and grow1: "Suc (length h) < length h1"
    and out1: "detectObjects frameWidth frameHeight (h ! predictions) = Some (h1 ! Suc (length h))"
    using detectObjects_store_run [OF assms] by blast
  have same: "h1 ! predictions = h ! predictions"
  proof -
    have "take (length h) h1 ! predictions = h1 ! predictions"
      using assms by simp
    then show ?thesis by (simp add: frame1)
  qed
  have in1: "predictions < length h1"
    using assms grow1 by simp
  obtain h2 where run2: "detectObjects_store frameWidth frameHeight h1 predictions = Some (h2, Suc (length h1))"
    and frame2: "take (length h1) h2 = h1"
    and out2: "detectObjects frameWidth frameHeight (h1 ! predictions) = Some (h2 ! Suc (length h1))"
    using detectObjects_store_run [OF in1] by blast
  have "h2 ! Suc (length h1) = h1 ! Suc (length h)"
    using out1 out2 by (simp add: same)
  moreover have "Suc (length h1) \<noteq> Suc (length h)"
    using grow1 by simp
  ultimately show ?thesis
    using run1 frame1 out1 run2 frame2 by blast
qed

theorem processor_deterministic_witness:
  "(0::nat) < length [[person_c, person_b_shifted, person_b]] \<and>
   detectObjects_store 1920 1080 [[person_c, person_b_shifted, person_b]] 0 =
     Some ([[person_c, person_b_shifted, person_b],
            [person_b, person_b_shifted, person_c], [person_b, person_c], []], 2) \<and>
   detectObjects_store 1920 1080
       [[person_c, person_b_shifted, person_b],
        [person_b, person_b_shifted, person_c], [person_b, person_c], []] 0 =
     Some ([[person_c, person_b_shifted, person_b],
            [person_b, person_b_shifted, person_c], [person_b, person_c], [],
            [person_b, person_b_shifted, person_c], [person_b, person_c], []], 5)"
  using processor_deterministic [of 0 "[[person_c, person_b_shifted, person_b]]" 1920 1080]
  by (simp add: detectObjects_store_def applyNMS_store_def new_array_def unfold_code samples)

text \<open>
  C2, as stated, fails in the arithmetic of the code: for the boxes [0, 100, 100, 180] and
  [0, 100, 100, 54.000000000000014] calculateIoU returns the double 0.3, the test
  \<open>iou > 0.3\<close> is false, and both are in the output; their exact intersection over union
  is above 0.3.
\<close>

theorem pairwise_iou_counterexample:
  "detectObjects_double (Num 1920) (Num 1080) [person_180, person_54]
     = Some [person_180, person_54] \<and>
   fl (54000000000000014 / 1000000000000000) = Num (3799912185593857 / 70368744177664) \<and>
   calculateIoU_double (bbox person_180) (bbox person_54) = fl (3 / 10) \<and>
   3 / 10 < calculateIoU (exact_box (bbox person_180)) (exact_box (bbox person_54))"
  by (simp add: unfold_double double_eval samples_double exact_box_def)

text \<open>
  C2, amended. For every list of predictions and all frame dimensions, any two detections
  at different positions of the output have an intersection over union, as calculateIoU
  computes it in double arithmetic, of at most the double 0.3. The while loop of applyNMS
  gives this for every array it is run on and every threshold: no computed intersection
  over union of two results is above the threshold.
\<close>

theorem output_pairwise_computed_iou:
  "(\<exists>result. nms_loop_double iouThreshold array [] = Some result \<and>
      (\<forall>i j. i < length result \<and> j < length result \<and> i \<noteq> j \<longrightarrow>
         \<not> d_gt (calculateIoU_double (bbox (result ! i)) (bbox (result ! j))) iouThreshold)) \<and>
   (\<exists>jamaah. detectObjects_double frameWidth frameHeight predictions = Some jamaah \<and>
      (\<forall>i j. i < length jamaah \<and> j < length jamaah \<and> i \<noteq> j \<longrightarrow>
         d_le (calculateIoU_double (bbox (jamaah ! i)) (bbox (jamaah ! j))) (fl (3 / 10))))"
proof
  show "\<exists>result. nms_loop_double iouThreshold array [] = Some result \<and>
      (\<forall>i j. i < length result \<and> j < length result \<and> i \<noteq> j \<longrightarrow>
         \<not> d_gt (calculateIoU_double (bbox (result ! i)) (bbox (result ! j))) iouThreshold)"
    using nms_double_nth_pairwise [of _ iouThreshold array]
    by (simp add: nms_loop_double_nms)
next
  define out where
    "out = nms_double (fl (3 / 10))
       (array_sort_double by_score_double
         (array_sort_double by_score_double
           (filter (is_jamaah_double frameWidth frameHeight) predictions)))"
  have run: "detectObjects_double frameWidth frameHeight predictions = Some out"
    by (simp add: out_def detectObjects_double_nms)
  have "d_le (calculateIoU_double (bbox (out ! i)) (bbox (out ! j))) (fl (3 / 10))"
    if "i < length out" "j < length out" "i \<noteq> j" for i j
  proof -
    have "\<not> d_gt (calculateIoU_double (bbox (out ! i)) (bbox (out ! j))) (fl (3 / 10))"
      using that unfolding out_def by (rule nms_double_nth_pairwise)
    then show ?thesis
      by (simp add: d_le_def d_gt_def calculateIoU_double_not_nan fl_not_nan)
  qed
  with run show "\<exists>jamaah. detectObjects_double frameWidth frameHeight predictions = Some jamaah \<and>
      (\<forall>i j. i < length jamaah \<and> j < length jamaah \<and> i \<noteq> j \<longrightarrow>
         d_le (calculateIoU_double (bbox (jamaah ! i)) (bbox (jamaah ! j))) (fl (3 / 10)))"
    by blast
qed

theorem output_pairwise_computed_iou_witness:
  "detectObjects_double (Num 1920) (Num 1080)
       [person_c_double, person_b_shifted_double, person_b_double]
     = Some [person_b_double, person_c_double] \<and>
   d_gt (calculateIoU_double (bbox person_b_double) (bbox person_b_shifted_double)) (fl (3 / 10)) \<and>
   d_le (calculateIoU_double (bbox person_b_double) (bbox person_c_double)) (fl (3 / 10)) \<and>
   d_le (calculateIoU_double (bbox person_c_double) (bbox person_b_double)) (fl (3 / 10)) \<and>
   nms_loop_double (fl (3 / 10)) [person_b_double, person_b_shifted_double, person_c_double] []
     = Some [person_b_double, person_c_double]"
  using output_pairwise_computed_iou [of "fl (3 / 10)"
      "[person_b_double, person_b_shifted_double, person_c_double]" "Num 1920" "Num 1080"
      "[person_c_double, person_b_shifted_double, person_b_double]"]
  by (simp add: unfold_double double_eval d_le_def samples_double)

text \<open>
  C4, as stated, fails in the arithmetic of the code: the box [0, 0, 230.4, 128] passes
  the filter, has width > 200 and an exact ratio width/height above 1.8, but the double
  quotient 230.4 / 128 is the double 1.8, the test \<open>aspectRatio > 1.8\<close> is false, and the
  box is in the output.
\<close>

theorem too_large_counterexample:
  "detectObjects_double (Num 1920) (Num 1080) [person_230] = Some [person_230] \<and>
   fl (2304 / 10) = Num (8106479329266893 / 35184372088832) \<and>
   bbox person_230 = (Num 0, Num 0, Num (8106479329266893 / 35184372088832), Num 128) \<and>
   d_div (Num (8106479329266893 / 35184372088832)) (Num 128) = fl (18 / 10) \<and>
   (200::rat) < 8106479329266893 / 35184372088832 \<and>
   (18 / 10 :: rat) < 8106479329266893 / 35184372088832 / 128"
  by (simp add: unfold_double double_eval samples_double)

text \<open>
  C4, amended. During NMS, a detection whose width is above 200 and whose quotient
  width/height, as the code computes it in double arithmetic, is above the double 1.8, is
  discarded and is never in the output, whatever its score: for every array the while loop
  is run on, for every call of applyNMS, and for the processor.
\<close>

theorem too_large_double_discarded:
  "(\<exists>result. nms_loop_double iouThreshold array [] = Some result \<and>
      (\<forall>d \<in> set result. case bbox d of (x, y, width, height) \<Rightarrow>
         \<not> (d_gt width (Num 200) \<and> d_gt (d_div width height) (fl (18 / 10))))) \<and>
   (\<exists>result. applyNMS_double detections iouThreshold = Some result \<and>
      (\<forall>d \<in> set result. case bbox d of (x, y, width, height) \<Rightarrow>
         \<not> (d_gt width (Num 200) \<and> d_gt (d_div width height) (fl (18 / 10))))) \<and>
   (\<exists>jamaah. detectObjects_double frameWidth frameHeight predictions = Some jamaah \<and>
      (\<forall>d \<in> set jamaah. case bbox d of (x, y, width, height) \<Rightarrow>
         \<not> (d_gt width (Num 200) \<and> d_gt (d_div width height) (fl (18 / 10)))))"
proof -
  have slim: "\<forall>d \<in> set (nms_double t xs). case bbox d of (x, y, width, height) \<Rightarrow>
      \<not> (d_gt width (Num 200) \<and> d_gt (d_div width height) (fl (18 / 10)))" for t xs
  proof
    fix d
    assume "d \<in> set (nms_double t xs)"
    then have "\<not> too_large_double d" by (rule nms_double_not_too_large)
    then show "case bbox d of (x, y, width, height) \<Rightarrow>
      \<not> (d_gt width (Num 200) \<and> d_gt (d_div width height) (fl (18 / 10)))"
      by (simp only: not_too_large_double_iff)
  qed
  show ?thesis
  proof (intro conjI exI)
    show "nms_loop_double iouThreshold array [] = Some (nms_double iouThreshold array)"
      by (simp add: nms_loop_double_nms)
    show "applyNMS_double detections iouThreshold =
        Some (nms_double iouThreshold (array_sort_double by_score_double detections))"
      by (rule applyNMS_double_nms)
    show "detectObjects_double frameWidth frameHeight predictions =
        Some (nms_double (fl (3 / 10))
          (array_sort_double by_score_double
            (array_sort_double by_score_double
              (filter (is_jamaah_double frameWidth frameHeight) predictions))))"
      by (rule detectObjects_double_nms)
  qed (rule slim)+
qed

theorem too_large_double_discarded_witness:
  "is_jamaah_double (Num 1920) (Num 1080) person_wide_double \<and>
   score person_c_double = fl (7 / 10) \<and> score person_wide_double = fl (9 / 10) \<and>
   nms_loop_double (fl (3 / 10)) [person_wide_double, person_c_double] []
     = Some [person_c_double] \<and>
   applyNMS_double [person_c_double, person_wide_double] (fl (3 / 10)) = Some [person_c_double] \<and>
   detectObjects_double (Num 1920) (Num 1080) [person_c_double, person_wide_double]
     = Some [person_c_double]"
  using too_large_double_discarded [of "fl (3 / 10)" "[person_wide_double, person_c_double]"
      "[person_c_double, person_wide_double]" "Num 1920" "Num 1080"
      "[person_c_double, person_wide_double]"]
  by (simp add: unfold_double double_eval samples_double)

text \<open>
  C5, as stated, fails in the arithmetic of the code: for the box of width and height
  \<open>5 * 2^-55\<close> at (1, 1), taken twice, the computed intersection is larger than the sum
  of the computed areas, the union is negative and calculateIoU returns 0; the formula of
  the specification gives a negative quotient in doubles, the union not being 0, and 1 in
  exact arithmetic.
\<close>

theorem iou_spec_counterexample:
  "fl (5 / 2 ^ 55) = Num (5 / 2 ^ 55) \<and>
   calculateIoU_double tiny_box tiny_box = Num 0 \<and>
   d_lt (iou_spec_double is_zero tiny_box tiny_box) (Num (- 4)) \<and>
   iou_spec (exact_box tiny_box) (exact_box tiny_box) = 1"
  by (simp add: double_eval samples_double exact_box_def)

text \<open>
  C5, amended. For all boxes A and B, calculateIoU returns the number (===) that the
  formula of the specification gives when each operation is a double operation and the
  result is 0 whenever the computed union is not above 0 (zero, negative or NaN):
  intersection rectangle from the max of the left and top edges and the min of the right
  and bottom edges, intersection area 0 when its width or height is negative, union =
  areaA + areaB - intersection.
\<close>

theorem calculateIoU_double_is_iou_spec:
  "d_eq (calculateIoU_double boxA boxB)
        (iou_spec_double (\<lambda>union. \<not> d_gt union (Num 0)) boxA boxB)"
proof -
  obtain xa ya wa ha where A: "boxA = (xa, ya, wa, ha)" by (cases boxA)
  obtain xb yb wb hb where B: "boxB = (xb, yb, wb, hb)" by (cases boxB)
  define iw where "iw = d_sub (d_min (d_add xa wa) (d_add xb wb)) (d_max xa xb)"
  define ih where "ih = d_sub (d_min (d_add ya ha) (d_add yb hb)) (d_max ya yb)"
  define s where "s = d_add (d_mul wa ha) (d_mul wb hb)"
  define inter_c where "inter_c = d_mul (d_max (Num 0) iw) (d_max (Num 0) ih)"
  define inter_s where "inter_s = (if d_lt iw (Num 0) \<or> d_lt ih (Num 0) then Num 0 else d_mul iw ih)"
  define rc where "rc = (if d_gt (d_sub s inter_c) (Num 0) then d_div inter_c (d_sub s inter_c) else Num 0)"
  define rs where "rs = (if \<not> d_gt (d_sub s inter_s) (Num 0) then Num 0 else d_div inter_s (d_sub s inter_s))"
  have code: "calculateIoU_double boxA boxB = rc"
    by (simp add: A B Let_def rc_def inter_c_def iw_def ih_def s_def)
  have spec: "iou_spec_double (\<lambda>union. \<not> d_gt union (Num 0)) boxA boxB = rs"
    by (simp add: A B Let_def rs_def inter_s_def iw_def ih_def s_def)
  have "same rc rs"
  proof (cases "d_lt iw (Num 0) \<or> d_lt ih (Num 0)")
    case False
    then have "same inter_c inter_s"
      unfolding inter_c_def inter_s_def by (simp add: d_mul_same d_max_zero_same)
    then have u: "same (d_sub s inter_c) (d_sub s inter_s)"
      by (rule d_sub_same)
    show ?thesis
    proof (cases "d_gt (d_sub s inter_c) (Num 0)")
      case True
      then have eq: "d_sub s inter_s = d_sub s inter_c"
        using u by (rule same_positive [rotated])
      show ?thesis
        using True \<open>same inter_c inter_s\<close> by (simp add: rc_def rs_def eq d_div_same)
    next
      case no: False
      then have "\<not> d_gt (d_sub s inter_s) (Num 0)"
        using same_gt_zero [OF u] by simp
      with no show ?thesis by (simp add: rc_def rs_def same_def)
    qed
  next
    case True
    then have inter0: "inter_s = Num 0" by (simp add: inter_s_def)
    have "inter_c = Num 0 \<or> inter_c = NotANumber"
    proof (cases "d_lt iw (Num 0)")
      case True
      then show ?thesis
        unfolding inter_c_def using d_mul_zero_left [OF d_max_zero_sign, of ih]
        by (simp add: d_max_zero_above)
    next
      case False
      then have "d_lt ih (Num 0)" using True by simp
      then show ?thesis
        unfolding inter_c_def using d_mul_zero_left [OF d_max_zero_sign, of iw]
        by (simp add: d_max_zero_above d_mul_commute)
    qed
    then show ?thesis
    proof
      assume "inter_c = Num 0"
      then show ?thesis by (auto simp: rc_def rs_def inter0 same_def)
    next
      assume "inter_c = NotANumber"
      then have "rc = Num 0"
        by (simp add: rc_def d_sub_nan d_gt_def)
      moreover have "rs = Num 0"
        by (simp add: rs_def inter0 d_div_zero_positive)
      ultimately show ?thesis by (simp add: same_def)
    qed
  qed
  moreover have "rc \<noteq> NotANumber"
    using calculateIoU_double_not_nan [of boxA boxB] by (simp add: code)
  ultimately have "d_eq rc rs"
    by (auto simp: d_eq_def same_def is_zero_def)
  then show ?thesis
    by (simp only: code spec)
qed

theorem calculateIoU_double_is_iou_spec_witness:
  "calculateIoU_double (bbox person_b_double) (bbox person_b_wider_double) = Num (1 / 2) \<and>
   iou_spec_double (\<lambda>union. \<not> d_gt union (Num 0))
     (bbox person_b_double) (bbox person_b_wider_double) = Num (1 / 2) \<and>
   calculateIoU_double tiny_box tiny_box = Num 0 \<and>
   iou_spec_double (\<lambda>union. \<not> d_gt union (Num 0)) tiny_box tiny_box = Num 0 \<and>
   d_eq (Num (1 / 2)) (Num (1 / 2)) \<and> d_eq (Num 0) (Num 0)"
  using calculateIoU_double_is_iou_spec [of "bbox person_b_double" "bbox person_b_wider_double"]
    calculateIoU_double_is_iou_spec [of tiny_box tiny_box]
  by (simp add: double_eval samples_double d_eq_def same_def)

end
